theory Spec2Isabelle
  imports Main "HOL-Library.Word" "HOL-Library.Signed_Division"
begin

section \<open>Machine integers\<close>

text \<open>
  The source's \<open>int\<close> is taken as a 32-bit two's-complement integer, executed the way
  the usual target executes it: \<open>+\<close> and \<open>-\<close> wrap around, the comparisons and the
  remainder read their operands as signed values (\<open>sint\<close>), and the division
  instruction behind \<open>%\<close> faults on a zero divisor and on \<open>INT_MIN % -1\<close>.
\<close>

type_synonym cint = "32 word"

definition INT_MIN :: cint where
  "INT_MIN = - (2 ^ 31)"

definition INT_MAX :: cint where
  "INT_MAX = 2 ^ 31 - 1"

datatype fault = DivisionByZero | DivisionOverflow

text \<open>
  The operator \<open>%\<close> on \<open>int\<close>: the remainder of the division that truncates towards
  zero (\<open>smod\<close> on the signed values), guarded by the two cases in which the
  division has no result.
\<close>

definition modulus :: "cint \<Rightarrow> cint \<Rightarrow> fault + cint" where
  "modulus x y =
     (if y = 0 then Inl DivisionByZero
      else if x = INT_MIN \<and> y = - 1 then Inl DivisionOverflow
      else Inr (word_of_int (sint x smod sint y)))"

section \<open>The helper functions\<close>

text \<open>\<^verbatim>\<open>int add(int x, int y) { return x + y; }\<close>\<close>

definition add :: "cint \<Rightarrow> cint \<Rightarrow> cint" where
  "add x y = x + y"

text \<open>\<^verbatim>\<open>int sub(int x, int y) { return x - y; }\<close>\<close>

definition sub :: "cint \<Rightarrow> cint \<Rightarrow> cint" where
  "sub x y = x - y"

section \<open>The state of the program\<close>

text \<open>
  The statements of \<open>main\<close>, named by their line in \<open>input.cpp\<close>. A state holds the
  line about to be executed, the two globals and the six locals of \<open>main\<close>.
\<close>

datatype label = L17 | L18 | L19 | L22 | L23 | L24 | L27 | L28 | L30 | L34 | L35 | L39

record state =
  pc :: label
  globalVar :: cint
  globalFlag :: bool
  a :: cint
  b :: cint
  flag :: bool
  c :: cint
  d :: cint
  e :: cint

text \<open>
  The globals are initialised before \<open>main\<close> starts (\<open>int globalVar = 42;\<close>,
  \<open>bool globalFlag = false;\<close>). The locals are not: the state \<open>main\<close> starts in
  holds whatever the argument \<open>junk\<close> holds in their place.
\<close>

definition init_state :: "state \<Rightarrow> state" where
  "init_state junk = junk\<lparr>pc := L17, globalVar := 42, globalFlag := False\<rparr>"

section \<open>One statement at a time\<close>

text \<open>The condition of the \<open>if\<close> on line 27: \<open>flag && (c > 10)\<close>.\<close>

definition branch_cond :: "state \<Rightarrow> bool" where
  "branch_cond s = (flag s \<and> 10 <s c s)"

text \<open>The guard of the \<open>while\<close> on line 34: \<open>a < c\<close>.\<close>

definition loop_guard :: "state \<Rightarrow> bool" where
  "loop_guard s = (a s <s c s)"

text \<open>The body of the \<open>while\<close>, line 35: \<open>a = a + 2;\<close>.\<close>

definition loop_body :: "state \<Rightarrow> state" where
  "loop_body s = s\<lparr>a := a s + 2\<rparr>"

datatype outcome = Continue state | Return cint | Fault fault

text \<open>
  What the statement at the current line does: the next state, the value \<open>main\<close>
  returns, or the fault that stops the program.
\<close>

definition step :: "state \<Rightarrow> outcome" where
  "step s =
     (case pc s of
        L17 \<Rightarrow> Continue (s\<lparr>a := 5, pc := L18\<rparr>)
      | L18 \<Rightarrow> Continue (s\<lparr>b := 10, pc := L19\<rparr>)
      | L19 \<Rightarrow> Continue (s\<lparr>flag := True, pc := L22\<rparr>)
      | L22 \<Rightarrow> Continue (s\<lparr>c := add (a s) (b s), pc := L23\<rparr>)
      | L23 \<Rightarrow> Continue (s\<lparr>d := sub (a s) (b s), pc := L24\<rparr>)
      | L24 \<Rightarrow>
          (case modulus (a s) (b s) of
             Inl f \<Rightarrow> Fault f
           | Inr r \<Rightarrow> Continue (s\<lparr>e := r, pc := L27\<rparr>))
      | L27 \<Rightarrow> Continue (s\<lparr>pc := (if branch_cond s then L28 else L30)\<rparr>)
      | L28 \<Rightarrow> Continue (s\<lparr>a := a s + 1, pc := L34\<rparr>)
      | L30 \<Rightarrow> Continue (s\<lparr>a := a s - 1, pc := L34\<rparr>)
      | L34 \<Rightarrow> Continue (s\<lparr>pc := (if loop_guard s then L35 else L39)\<rparr>)
      | L35 \<Rightarrow> Continue ((loop_body s)\<lparr>pc := L34\<rparr>)
      | L39 \<Rightarrow> Return (a s))"

section \<open>Executions\<close>

text \<open>\<open>steps n s\<close>: where the program is after \<open>n\<close> statements from \<open>s\<close>.\<close>

fun steps :: "nat \<Rightarrow> state \<Rightarrow> outcome" where
  "steps 0 s = Continue s"
| "steps (Suc n) s =
     (case step s of
        Continue s' \<Rightarrow> steps n s'
      | Return v \<Rightarrow> Return v
      | Fault f \<Rightarrow> Fault f)"

text \<open>\<open>trace n s\<close>: the states the program is in during its first \<open>n\<close> statements from \<open>s\<close>.\<close>

fun trace :: "nat \<Rightarrow> state \<Rightarrow> state list" where
  "trace 0 s = [s]"
| "trace (Suc n) s =
     s # (case step s of
            Continue s' \<Rightarrow> trace n s'
          | Return v \<Rightarrow> []
          | Fault f \<Rightarrow> [])"

text \<open>
  Running to the end. The loop of \<open>main\<close> is a loop of \<open>run\<close>: a run that never
  leaves it has the value \<open>None\<close>.
\<close>

partial_function (option) run :: "state \<Rightarrow> (fault + cint) option" where
  "run s =
     (case step s of
        Continue s' \<Rightarrow> run s'
      | Return v \<Rightarrow> Some (Inr v)
      | Fault f \<Rightarrow> Some (Inl f))"

text \<open>\<open>int main()\<close>: the program's exit status is the value it returns.\<close>

definition main :: "state \<Rightarrow> (fault + cint) option" where
  "main junk = run (init_state junk)"

text \<open>The states an execution of \<open>main\<close> passes through.\<close>

inductive reachable :: "state \<Rightarrow> state \<Rightarrow> bool" for junk :: state where
  reach_init: "reachable junk (init_state junk)"
| reach_step: "reachable junk s \<Longrightarrow> step s = Continue s' \<Longrightarrow> reachable junk s'"

section \<open>Assertions\<close>

text \<open>
  What holds each time \<open>main\<close> is about to execute a line: the globals have their
  initial values, the locals assigned so far have theirs, and between the conditional
  and the \<open>return\<close> the variable \<open>a\<close> is even and between 6 and 16.
\<close>

definition main_inv :: "state \<Rightarrow> bool" where
  "main_inv s =
     (globalVar s = 42 \<and> globalFlag s = False \<and>
      (case pc s of
         L17 \<Rightarrow> True
       | L18 \<Rightarrow> a s = 5
       | L19 \<Rightarrow> a s = 5 \<and> b s = 10
       | L22 \<Rightarrow> a s = 5 \<and> b s = 10 \<and> flag s
       | L23 \<Rightarrow> a s = 5 \<and> b s = 10 \<and> flag s \<and> c s = 15
       | L24 \<Rightarrow> a s = 5 \<and> b s = 10 \<and> flag s \<and> c s = 15 \<and> d s = - 5
       | L27 \<Rightarrow> a s = 5 \<and> b s = 10 \<and> flag s \<and> c s = 15 \<and> d s = - 5 \<and> e s = 5
       | L28 \<Rightarrow> a s = 5 \<and> b s = 10 \<and> flag s \<and> c s = 15 \<and> d s = - 5 \<and> e s = 5
       | L30 \<Rightarrow> False
       | L34 \<Rightarrow> b s = 10 \<and> flag s \<and> c s = 15 \<and> d s = - 5 \<and> e s = 5 \<and>
                even (sint (a s)) \<and> 6 \<le> sint (a s) \<and> sint (a s) \<le> 16
       | L35 \<Rightarrow> b s = 10 \<and> flag s \<and> c s = 15 \<and> d s = - 5 \<and> e s = 5 \<and>
                even (sint (a s)) \<and> 6 \<le> sint (a s) \<and> sint (a s) \<le> 14
       | L39 \<Rightarrow> b s = 10 \<and> flag s \<and> c s = 15 \<and> d s = - 5 \<and> e s = 5 \<and> a s = 16))"

text \<open>
  One content of the memory \<open>main\<close> may find when it starts, to run the program on:
  nothing in it agrees with what the program assigns, and the place of \<open>b\<close> holds 0.
\<close>

definition sample_junk :: state where
  "sample_junk =
     \<lparr>pc = L39, globalVar = 7, globalFlag = True,
      a = - 3, b = 0, flag = False, c = 100, d = 1, e = 9\<rparr>"

section \<open>Evaluating the program\<close>

lemmas prog_defs =
  step_def add_def sub_def modulus_def INT_MIN_def signed_modulo_int_def
  branch_cond_def loop_guard_def loop_body_def

lemma steps_numeral [simp]:
  "steps (numeral k) s =
     (case step s of
        Continue s' \<Rightarrow> steps (pred_numeral k) s'
      | Return v \<Rightarrow> Return v
      | Fault f \<Rightarrow> Fault f)"
  by (simp add: numeral_eq_Suc)

lemma trace_numeral [simp]:
  "trace (numeral k) s =
     s # (case step s of
            Continue s' \<Rightarrow> trace (pred_numeral k) s'
          | Return v \<Rightarrow> []
          | Fault f \<Rightarrow> [])"
  by (simp add: numeral_eq_Suc)

lemma main_value: "main junk = Some (Inr 16)"
  by (simp add: main_def run.simps prog_defs init_state_def)

lemma main_steps: "steps 20 (init_state junk) = Return 16"
  by (simp add: prog_defs init_state_def)

text \<open>An execution that ends within \<open>n\<close> statements is what \<open>run\<close> computes.\<close>

lemma run_steps_return: "steps n s = Return v \<Longrightarrow> run s = Some (Inr v)"
proof (induction n arbitrary: s)
  case 0
  then show ?case by simp
next
  case (Suc n)
  then show ?case
    by (subst run.simps) (auto split: outcome.splits)
qed

lemma run_steps_fault: "steps n s = Fault f \<Longrightarrow> run s = Some (Inl f)"
proof (induction n arbitrary: s)
  case 0
  then show ?case by simp
next
  case (Suc n)
  then show ?case
    by (subst run.simps) (auto split: outcome.splits)
qed

section \<open>The assertions hold along every execution\<close>

lemma sint_plus_2: "6 \<le> sint (x::cint) \<Longrightarrow> sint x \<le> 14 \<Longrightarrow> sint (x + 2) = sint x + 2"
  by (simp add: sint_word_ariths signed_take_bit_int_eq_self)

lemma sint_is_16: "sint (x::cint) = 16 \<Longrightarrow> x = 16"
  by (rule signed_word_eqI) simp

lemma even_below_15: "even (k::int) \<Longrightarrow> k < 15 \<Longrightarrow> k \<le> 14"
  by presburger

lemma even_from_15: "even (k::int) \<Longrightarrow> \<not> k < 15 \<Longrightarrow> k \<le> 16 \<Longrightarrow> k = 16"
  by presburger

lemma least_even_from_15: "(LEAST n::int. even n \<and> 15 \<le> n) = 16"
proof (rule Least_equality)
  show "even (16::int) \<and> 15 \<le> (16::int)" by simp
next
  fix k :: int
  assume "even k \<and> 15 \<le> k"
  then show "16 \<le> k" by presburger
qed

lemma main_inv_init: "main_inv (init_state junk)"
  by (simp add: main_inv_def init_state_def)

lemma main_inv_step:
  assumes "main_inv s" and "step s = Continue s'"
  shows "main_inv s'"
proof (cases "pc s")
  case L34
  show ?thesis
  proof (cases "loop_guard s")
    case True
    with assms L34 show ?thesis
      by (auto simp: main_inv_def step_def loop_guard_def word_sless_alt intro: even_below_15)
  next
    case False
    with assms L34 show ?thesis
      by (auto simp: main_inv_def step_def loop_guard_def word_sless_alt
          intro!: sint_is_16 even_from_15)
  qed
next
  case L35
  with assms show ?thesis
    by (auto simp: main_inv_def step_def loop_body_def sint_plus_2)
qed (use assms in \<open>auto simp: main_inv_def prog_defs\<close>)

lemma reachable_inv: "reachable junk s \<Longrightarrow> main_inv s"
  by (induction rule: reachable.induct) (auto intro: main_inv_init main_inv_step)

lemma step_globals:
  "step s = Continue s' \<Longrightarrow> globalVar s' = globalVar s \<and> globalFlag s' = globalFlag s"
  by (auto simp: step_def loop_body_def split: label.splits sum.splits)

lemma reachable_globals:
  "reachable junk s \<Longrightarrow> globalVar s = 42 \<and> globalFlag s = False"
  by (induction rule: reachable.induct) (simp_all add: init_state_def step_globals)

lemma step_ignores_globals:
  "step (s\<lparr>globalVar := v, globalFlag := f\<rparr>) =
     (case step s of
        Continue s' \<Rightarrow> Continue (s'\<lparr>globalVar := v, globalFlag := f\<rparr>)
      | Return r \<Rightarrow> Return r
      | Fault x \<Rightarrow> Fault x)"
  by (auto simp: step_def loop_body_def loop_guard_def branch_cond_def split: label.split sum.split)

lemma reachable_steps:
  "reachable junk s \<Longrightarrow> steps n s = Continue t \<Longrightarrow> reachable junk t"
proof (induction n arbitrary: s)
  case 0
  then show ?case by simp
next
  case (Suc n)
  then show ?case
    by (auto split: outcome.splits intro: reachable.reach_step)
qed

lemma steps_return:
  "reachable junk s \<Longrightarrow> steps n s = Return v \<Longrightarrow> \<exists>t. reachable junk t \<and> step t = Return v"
proof (induction n arbitrary: s)
  case 0
  then show ?case by simp
next
  case (Suc n)
  then show ?case
    by (auto split: outcome.splits intro: reachable.reach_step)
qed

lemma step_return: "step s = Return v \<Longrightarrow> pc s = L39 \<and> v = a s"
  by (auto simp: step_def split: label.splits sum.splits)

lemma step_fault: "step s = Fault f \<Longrightarrow> pc s = L24 \<and> modulus (a s) (b s) = Inl f"
  by (auto simp: step_def split: label.splits sum.splits)

lemma returned_value:
  assumes "steps n (init_state junk) = Return v"
  shows "v = 16"
proof -
  from steps_return [OF reachable.reach_init assms]
  obtain t where t: "reachable junk t" "step t = Return v" by blast
  from t(1) have "main_inv t" by (rule reachable_inv)
  with step_return [OF t(2)] show ?thesis by (simp add: main_inv_def)
qed

lemma trace_numeral_plus [simp]:
  "trace (numeral k + n) s =
     s # (case step s of
            Continue s' \<Rightarrow> trace (pred_numeral k + n) s'
          | Return v \<Rightarrow> []
          | Fault f \<Rightarrow> [])"
  by (simp add: numeral_eq_Suc)

lemma trace_at_return [simp]: "pc s = L39 \<Longrightarrow> trace n s = [s]"
  by (cases n) (simp_all add: step_def)

section \<open>The remainder\<close>

lemma smod_int_bounds:
  fixes k l :: int
  assumes "l \<noteq> 0"
  shows "\<bar>k smod l\<bar> < \<bar>l\<bar>" and "0 \<le> k \<Longrightarrow> 0 \<le> k smod l" and "k \<le> 0 \<Longrightarrow> k smod l \<le> 0"
proof -
  have m: "0 \<le> \<bar>k\<bar> mod \<bar>l\<bar>" "\<bar>k\<bar> mod \<bar>l\<bar> < \<bar>l\<bar>"
    using assms by simp_all
  show "\<bar>k smod l\<bar> < \<bar>l\<bar>"
    using m assms by (simp add: signed_modulo_int_def abs_mult abs_sgn_eq)
  show "0 \<le> k \<Longrightarrow> 0 \<le> k smod l"
    using m by (simp add: signed_modulo_int_def sgn_if)
  show "k \<le> 0 \<Longrightarrow> k smod l \<le> 0"
    using m by (simp add: signed_modulo_int_def sgn_if)
qed

lemma sint_modulus:
  assumes "modulus x y = Inr r"
  shows "sint r = sint x smod sint y" and "y \<noteq> 0"
proof -
  from assms show y: "y \<noteq> 0"
    by (auto simp: modulus_def split: if_splits)
  then have l: "sint y \<noteq> 0"
    by (metis signed_word_eqI sint_0)
  from assms y have r: "r = word_of_int (sint x smod sint y)"
    by (auto simp: modulus_def split: if_splits)
  have "\<bar>sint x smod sint y\<bar> < \<bar>sint y\<bar>"
    by (rule smod_int_bounds(1) [OF l])
  moreover have "- (2 ^ 31) \<le> sint y" "sint y < 2 ^ 31"
    using sint_ge [of y] sint_lt [of y] by simp_all
  ultimately have "- (2 ^ 31) \<le> sint x smod sint y" "sint x smod sint y < 2 ^ 31"
    by linarith+
  then show "sint r = sint x smod sint y"
    by (simp add: r sint_sbintrunc' signed_take_bit_int_eq_self)
qed

section \<open>The signed values of add and sub\<close>

text \<open>
  Where the sum or the difference of the signed values is representable, \<open>add\<close> and
  \<open>sub\<close> return it; at the ends of the range they wrap around.
\<close>

lemma add_exact:
  "- (2 ^ 31) \<le> sint x + sint y \<Longrightarrow> sint x + sint y < 2 ^ 31 \<Longrightarrow>
   sint (add x y) = sint x + sint y"
  by (simp add: add_def sint_word_ariths signed_take_bit_int_eq_self)

lemma sub_exact:
  "- (2 ^ 31) \<le> sint x - sint y \<Longrightarrow> sint x - sint y < 2 ^ 31 \<Longrightarrow>
   sint (sub x y) = sint x - sint y"
  by (simp add: sub_def sint_word_ariths signed_take_bit_int_eq_self)

lemma sint_INT: "sint INT_MIN = - (2 ^ 31) \<and> sint INT_MAX = 2 ^ 31 - 1"
  by (simp add: INT_MAX_def INT_MIN_def)

lemma add_sub_wrap: "add INT_MAX 1 = INT_MIN \<and> sub INT_MIN 1 = INT_MAX"
  by (simp add: add_def sub_def INT_MAX_def INT_MIN_def)

section \<open>The helper functions in isolation\<close>

text \<open>
  Claim C6. For all 32-bit values \<open>x\<close> and \<open>y\<close>, \<open>add\<close> and \<open>sub\<close> return a value
  (neither has a fault among its results), \<open>add(x, y) - sub(x, y) = 2y\<close> and
  \<open>sub(add(x, y), y) = x\<close>, in the wrap-around arithmetic of \<open>int\<close>: also where the
  sum or the difference overflows.
\<close>

theorem add_sub_identities:
  "add x y - sub x y = 2 * y \<and> sub (add x y) y = x"
  by (simp add: add_def sub_def)

section \<open>The result of the program\<close>

text \<open>
  Claim C1. Whatever the memory of the locals holds at the start, \<open>main\<close> returns,
  and returns 16: the run ends with its twentieth statement, the \<open>return\<close> on
  line 39, and the value returned is the exit status.
\<close>

theorem main_returns_16:
  "main junk = Some (Inr 16) \<and> steps 20 (init_state junk) = Return 16"
  by (simp only: main_value main_steps)

section \<open>The loop\<close>

text \<open>
  Claim C2. \<open>main\<close> reaches the \<open>while\<close> on line 34 after 8 statements, with
  \<open>a = 6\<close> and \<open>c = 15\<close>. From there the loop terminates: 11 statements later the
  program is at the \<open>return\<close> on line 39 with \<open>a = 16\<close> and nothing else changed,
  and the next statement returns. On the way the guard is evaluated at
  \<open>a = 6, 8, 10, 12, 14, 16\<close>, true at the first five and false at 16, and the body
  on line 35 is executed exactly 5 times; a longer trace holds no further state.
\<close>

theorem while_loop_trace:
  "\<exists>s. steps 8 (init_state junk) = Continue s \<and> pc s = L34 \<and> a s = 6 \<and> c s = 15 \<and>
     map (\<lambda>t. (pc t, a t)) (trace 11 s) =
       [(L34, 6), (L35, 6), (L34, 8), (L35, 8), (L34, 10), (L35, 10),
        (L34, 12), (L35, 12), (L34, 14), (L35, 14), (L34, 16), (L39, 16)] \<and>
     length (filter (\<lambda>t. pc t = L35) (trace 11 s)) = 5 \<and>
     map (\<lambda>t. (a t, loop_guard t)) (filter (\<lambda>t. pc t = L34) (trace 11 s)) =
       [(6, True), (8, True), (10, True), (12, True), (14, True), (16, False)] \<and>
     steps 11 s = Continue (s\<lparr>a := 16, pc := L39\<rparr>) \<and>
     steps 12 s = Return 16 \<and>
     trace (11 + k) s = trace 11 s"
  by (simp add: prog_defs init_state_def)

section \<open>The conditional\<close>

text \<open>
  Claim C3. When \<open>main\<close> reaches the \<open>if\<close> on line 27, after 6 statements,
  \<open>flag\<close> is true and \<open>c = 15 > 10\<close>: both operands of \<open>&&\<close> are true, the
  condition holds, control goes to the true-branch on line 28, and after that
  statement the program is at line 34 with \<open>a = 6\<close>. The else-branch on line 30
  is never reached.
\<close>

theorem conditional_true_branch:
  "(\<exists>s. steps 6 (init_state junk) = Continue s \<and> pc s = L27 \<and>
      flag s \<and> c s = 15 \<and> 10 <s c s \<and> branch_cond s \<and>
      step s = Continue (s\<lparr>pc := L28\<rparr>) \<and>
      steps 2 s = Continue (s\<lparr>a := 6, pc := L34\<rparr>)) \<and>
   (reachable junk t \<longrightarrow> pc t \<noteq> L30)"
proof
  show "\<exists>s. steps 6 (init_state junk) = Continue s \<and> pc s = L27 \<and>
      flag s \<and> c s = 15 \<and> 10 <s c s \<and> branch_cond s \<and>
      step s = Continue (s\<lparr>pc := L28\<rparr>) \<and>
      steps 2 s = Continue (s\<lparr>a := 6, pc := L34\<rparr>)"
    by (simp add: prog_defs init_state_def)
  show "reachable junk t \<longrightarrow> pc t \<noteq> L30"
    using reachable_inv [of junk t] by (auto simp: main_inv_def)
qed

text \<open>Witness for C3, on \<open>sample_junk\<close>: the state at line 34 is reached and is not line 30.\<close>

theorem conditional_true_branch_witness:
  "(\<exists>s. steps 6 (init_state sample_junk) = Continue s \<and> pc s = L27 \<and>
      flag s \<and> c s = 15 \<and> 10 <s c s \<and> branch_cond s \<and>
      step s = Continue (s\<lparr>pc := L28\<rparr>) \<and>
      steps 2 s = Continue (s\<lparr>a := 6, pc := L34\<rparr>)) \<and>
   (\<exists>t. steps 8 (init_state sample_junk) = Continue t \<and> reachable sample_junk t \<and>
      pc t = L34 \<and> pc t \<noteq> L30)"
proof -
  obtain t where t: "steps 8 (init_state sample_junk) = Continue t" "pc t = L34"
    by (simp add: prog_defs init_state_def)
  from t(1) have "reachable sample_junk t"
    by (rule reachable_steps [OF reachable.reach_init])
  with t conditional_true_branch [of sample_junk t] show ?thesis
    by blast
qed

section \<open>The calls of add and sub\<close>

text \<open>
  Claim C4. \<open>add(5, 10) = 15\<close> and \<open>sub(5, 10) = -5\<close>; when \<open>main\<close> reaches line 22,
  after 3 statements, \<open>a = 5\<close> and \<open>b = 10\<close>, line 22 sets \<open>c\<close> to
  \<open>add(a, b) = 15\<close> and line 23 sets \<open>d\<close> to \<open>sub(a, b) = -5\<close>.
\<close>

theorem add_sub_in_main:
  "add 5 10 = 15 \<and> sub 5 10 = - 5 \<and> sint (sub 5 10) = - 5 \<and>
   (\<exists>s t u. steps 3 (init_state junk) = Continue s \<and> pc s = L22 \<and> a s = 5 \<and> b s = 10 \<and>
      step s = Continue t \<and> pc t = L23 \<and> c t = add (a s) (b s) \<and> c t = 15 \<and>
      step t = Continue u \<and> pc u = L24 \<and> d u = sub (a t) (b t) \<and> d u = - 5 \<and>
      sint (c u) = 15 \<and> sint (d u) = - 5)"
  by (simp add: prog_defs init_state_def)

section \<open>The remainder in main\<close>

text \<open>
  Claim C5. When \<open>main\<close> reaches line 24, after 5 statements, \<open>a = 5\<close> and
  \<open>b = 10\<close>, and the statement sets \<open>e\<close> to \<open>a % b = 5\<close>. Whenever \<open>%\<close> has a
  result, it is the remainder of the division that truncates towards zero
  (\<open>sdiv\<close> on the signed values): \<open>x - (x / y) * y\<close>, with the sign of the dividend
  \<open>x\<close> and smaller in absolute value than \<open>y\<close>.
\<close>

theorem modulus_in_main:
  "(\<exists>s t. steps 5 (init_state junk) = Continue s \<and> pc s = L24 \<and> a s = 5 \<and> b s = 10 \<and>
      modulus (a s) (b s) = Inr 5 \<and> step s = Continue t \<and> pc t = L27 \<and> e t = 5 \<and>
      sint (e t) = sint (a s) - (sint (a s) sdiv sint (b s)) * sint (b s)) \<and>
   (modulus x y = Inr r \<longrightarrow>
      sint r = sint x - (sint x sdiv sint y) * sint y \<and>
      (0 \<le> sint x \<longrightarrow> 0 \<le> sint r) \<and> (sint x \<le> 0 \<longrightarrow> sint r \<le> 0) \<and>
      \<bar>sint r\<bar> < \<bar>sint y\<bar>)"
proof
  show "\<exists>s t. steps 5 (init_state junk) = Continue s \<and> pc s = L24 \<and> a s = 5 \<and> b s = 10 \<and>
      modulus (a s) (b s) = Inr 5 \<and> step s = Continue t \<and> pc t = L27 \<and> e t = 5 \<and>
      sint (e t) = sint (a s) - (sint (a s) sdiv sint (b s)) * sint (b s)"
    by (simp add: prog_defs init_state_def signed_divide_int_def)
  show "modulus x y = Inr r \<longrightarrow>
      sint r = sint x - (sint x sdiv sint y) * sint y \<and>
      (0 \<le> sint x \<longrightarrow> 0 \<le> sint r) \<and> (sint x \<le> 0 \<longrightarrow> sint r \<le> 0) \<and>
      \<bar>sint r\<bar> < \<bar>sint y\<bar>"
  proof
    assume m: "modulus x y = Inr r"
    have r: "sint r = sint x smod sint y" and "y \<noteq> 0"
      by (rule sint_modulus [OF m])+
    then have l: "sint y \<noteq> 0"
      by (metis signed_word_eqI sint_0)
    show "sint r = sint x - (sint x sdiv sint y) * sint y \<and>
      (0 \<le> sint x \<longrightarrow> 0 \<le> sint r) \<and> (sint x \<le> 0 \<longrightarrow> sint r \<le> 0) \<and>
      \<bar>sint r\<bar> < \<bar>sint y\<bar>"
      using smod_int_bounds [OF l, of "sint x"]
      by (simp add: r minus_sdiv_mult_eq_smod)
  qed
qed

text \<open>
  Witness for C5, on \<open>sample_junk\<close> and on \<open>-7 % 2\<close>, whose result \<open>-1\<close> has the sign
  of the dividend (the remainder of the flooring division would be 1).
\<close>

theorem modulus_in_main_witness:
  "(\<exists>s t. steps 5 (init_state sample_junk) = Continue s \<and> pc s = L24 \<and> a s = 5 \<and> b s = 10 \<and>
      modulus (a s) (b s) = Inr 5 \<and> step s = Continue t \<and> pc t = L27 \<and> e t = 5 \<and>
      sint (e t) = sint (a s) - (sint (a s) sdiv sint (b s)) * sint (b s)) \<and>
   modulus (- 7) 2 = Inr (- 1) \<and>
   sint (- 1 :: cint) = sint (- 7 :: cint) - (sint (- 7 :: cint) sdiv sint (2 :: cint)) * sint (2 :: cint) \<and>
   sint (- 7 :: cint) \<le> 0 \<and> sint (- 1 :: cint) \<le> 0 \<and>
   \<bar>sint (- 1 :: cint)\<bar> < \<bar>sint (2 :: cint)\<bar>"
proof -
  have m: "modulus (- 7) 2 = Inr (- 1)"
    by (simp add: prog_defs)
  have n: "sint (- 7 :: cint) \<le> 0"
    by simp
  from modulus_in_main [of sample_junk "- 7" 2 "- 1"] m n show ?thesis
    by blast
qed

section \<open>The globals\<close>

text \<open>
  Claim C7. In every state an execution of \<open>main\<close> passes through, \<open>globalVar\<close> is
  42 and \<open>globalFlag\<close> is false, their initial values. No statement of \<open>main\<close>
  writes them: a step from any state leaves both as they are. No statement reads
  them: a step from a state with other values in the globals does the same, and
  carries those values along.
\<close>

theorem globals_unchanged:
  "(reachable junk s \<longrightarrow> globalVar s = 42 \<and> globalFlag s = False) \<and>
   (step t = Continue t' \<longrightarrow> globalVar t' = globalVar t \<and> globalFlag t' = globalFlag t) \<and>
   step (t\<lparr>globalVar := v, globalFlag := f\<rparr>) =
     (case step t of
        Continue u \<Rightarrow> Continue (u\<lparr>globalVar := v, globalFlag := f\<rparr>)
      | Return r \<Rightarrow> Return r
      | Fault x \<Rightarrow> Fault x)"
  using reachable_globals [of junk s] step_globals [of t t'] step_ignores_globals [where s = t and v = v and f = f]
  by blast

text \<open>
  Witness for C7, on \<open>sample_junk\<close>: the last execution of the loop body, from the
  state after 17 statements.
\<close>

theorem globals_unchanged_witness:
  "\<exists>s t. steps 17 (init_state sample_junk) = Continue s \<and> step s = Continue t \<and>
     reachable sample_junk t \<and> pc s = L35 \<and> globalVar t = 42 \<and> globalFlag t = False \<and>
     globalVar t = globalVar s \<and> globalFlag t = globalFlag s \<and>
     step (s\<lparr>globalVar := 7, globalFlag := True\<rparr>) =
       Continue (t\<lparr>globalVar := 7, globalFlag := True\<rparr>)"
proof -
  obtain s t where s: "steps 17 (init_state sample_junk) = Continue s" "pc s = L35"
    and t: "step s = Continue t"
    by (simp add: prog_defs init_state_def)
  from s(1) have "reachable sample_junk s"
    by (rule reachable_steps [OF reachable.reach_init])
  then have r: "reachable sample_junk t"
    using t by (rule reachable.reach_step)
  from globals_unchanged [where junk = sample_junk and s = t and t = s and t' = t
      and v = 7 and f = True] r t
  have "globalVar t = 42" "globalFlag t = False"
    "globalVar t = globalVar s" "globalFlag t = globalFlag s"
    "step (s\<lparr>globalVar := 7, globalFlag := True\<rparr>) =
       Continue (t\<lparr>globalVar := 7, globalFlag := True\<rparr>)"
    by auto
  with r s t show ?thesis
    by blast
qed

section \<open>Determinism\<close>

text \<open>
  Claim C8. Any two runs of \<open>main\<close> return the same result, whatever the memory of
  the locals holds when each starts (the only thing that can differ between two runs
  of a program without input): the results of \<open>main\<close> agree and are not \<open>None\<close>,
  and two executions that return, after any numbers of statements, return the same
  value. No run has an effect on the globals, the only state that outlives \<open>main\<close>.
\<close>

theorem main_deterministic:
  "main junk = main junk' \<and> main junk \<noteq> None \<and>
   (steps n (init_state junk) = Return v \<and> steps m (init_state junk') = Return w \<longrightarrow> v = w) \<and>
   (reachable junk s \<longrightarrow>
      globalVar s = globalVar (init_state junk) \<and> globalFlag s = globalFlag (init_state junk))"
  using returned_value [of n junk v] returned_value [of m junk' w] reachable_globals [of junk s]
  by (auto simp: main_value init_state_def)

text \<open>Witness for C8: two runs from different contents of the memory.\<close>

theorem main_deterministic_witness:
  "main sample_junk = main (sample_junk\<lparr>a := 1000, c := - 1\<rparr>) \<and> main sample_junk \<noteq> None \<and>
   steps 20 (init_state sample_junk) = Return 16 \<and>
   steps 23 (init_state (sample_junk\<lparr>a := 1000, c := - 1\<rparr>)) = Return 16 \<and>
   (\<exists>s. steps 19 (init_state sample_junk) = Continue s \<and> reachable sample_junk s \<and>
      globalVar s = globalVar (init_state sample_junk) \<and>
      globalFlag s = globalFlag (init_state sample_junk))"
proof -
  obtain s where s: "steps 19 (init_state sample_junk) = Continue s"
    by (simp add: prog_defs init_state_def)
  then have r: "reachable sample_junk s"
    by (rule reachable_steps [OF reachable.reach_init])
  have "steps 20 (init_state sample_junk) = Return 16"
    and "steps 23 (init_state (sample_junk\<lparr>a := 1000, c := - 1\<rparr>)) = Return 16"
    by (simp_all add: prog_defs init_state_def)
  with main_deterministic [of sample_junk "sample_junk\<lparr>a := 1000, c := - 1\<rparr>" 20 16 23 16 s]
    r s show ?thesis
    by blast
qed

section \<open>The invariant of the loop\<close>

text \<open>
  Claim C9. From the conditional on (lines 34, 35 and 39), in every state an
  execution of \<open>main\<close> passes through, the signed value of \<open>a\<close> is even and
  between 6 and 16. At the exit of the loop (line 39) the guard is false and \<open>a\<close> is
  16, the least even integer that is at least \<open>c = 15\<close>.
\<close>

theorem loop_invariant:
  assumes "reachable junk s" and "pc s = L34 \<or> pc s = L35 \<or> pc s = L39"
  shows "even (sint (a s)) \<and> 6 \<le> sint (a s) \<and> sint (a s) \<le> 16 \<and>
    (pc s = L39 \<longrightarrow> a s = 16 \<and> \<not> loop_guard s \<and>
       sint (a s) = (LEAST n. even n \<and> sint (c s) \<le> n))"
proof -
  from assms(1) have "main_inv s"
    by (rule reachable_inv)
  with assms(2) show ?thesis
    by (auto simp: main_inv_def loop_guard_def least_even_from_15)
qed

text \<open>Witness for C9, on \<open>sample_junk\<close>: the state at the exit of the loop.\<close>

theorem loop_invariant_witness:
  "\<exists>s. steps 19 (init_state sample_junk) = Continue s \<and> reachable sample_junk s \<and>
     pc s = L39 \<and> even (sint (a s)) \<and> 6 \<le> sint (a s) \<and> sint (a s) \<le> 16 \<and>
     a s = 16 \<and> \<not> loop_guard s \<and> sint (a s) = (LEAST n. even n \<and> sint (c s) \<le> n)"
proof -
  obtain s where s: "steps 19 (init_state sample_junk) = Continue s" "pc s = L39"
    by (simp add: prog_defs init_state_def)
  from s(1) have r: "reachable sample_junk s"
    by (rule reachable_steps [OF reachable.reach_init])
  from loop_invariant [OF r] s r show ?thesis
    by blast
qed

section \<open>No fault\<close>

text \<open>
  Claim C10. Whenever an execution of \<open>main\<close> is at line 24, the divisor \<open>b\<close> is
  10, not zero, and \<open>a % b\<close> has the result 5. No state an execution passes through
  steps to a fault. Line 24 is the only line that can fault at all, and \<open>%\<close> has
  the result \<open>DivisionByZero\<close> exactly when its divisor is zero.
\<close>

theorem modulus_never_faults:
  "(reachable junk s \<and> pc s = L24 \<longrightarrow>
      b s = 10 \<and> b s \<noteq> 0 \<and> modulus (a s) (b s) = Inr 5) \<and>
   (reachable junk s \<longrightarrow> step s \<noteq> Fault f) \<and>
   (step t = Fault f \<longrightarrow> pc t = L24) \<and>
   (modulus x y = Inl DivisionByZero) = (y = 0)"
proof -
  have "main_inv s" if "reachable junk s"
    using that by (rule reachable_inv)
  then have "reachable junk s \<and> pc s = L24 \<longrightarrow>
      b s = 10 \<and> b s \<noteq> 0 \<and> modulus (a s) (b s) = Inr 5"
    by (auto simp: main_inv_def modulus_def INT_MIN_def signed_modulo_int_def)
  moreover from this have "reachable junk s \<longrightarrow> step s \<noteq> Fault f"
    using step_fault [of s f] by auto
  moreover have "step t = Fault f \<longrightarrow> pc t = L24"
    using step_fault [of t f] by blast
  moreover have "(modulus x y = Inl DivisionByZero) = (y = 0)"
    by (simp add: modulus_def)
  ultimately show ?thesis
    by blast
qed

text \<open>
  Witness for C10, on \<open>sample_junk\<close>: the state \<open>main\<close> is in at line 24, and a
  state that does fault, line 24 with the divisor 0 that \<open>sample_junk\<close> holds.
\<close>

theorem modulus_never_faults_witness:
  "(\<exists>s. steps 5 (init_state sample_junk) = Continue s \<and> reachable sample_junk s \<and>
      pc s = L24 \<and> b s = 10 \<and> b s \<noteq> 0 \<and> modulus (a s) (b s) = Inr 5 \<and>
      step s \<noteq> Fault DivisionByZero) \<and>
   step (sample_junk\<lparr>pc := L24\<rparr>) = Fault DivisionByZero \<and>
   pc (sample_junk\<lparr>pc := L24\<rparr>) = L24 \<and>
   (modulus 5 0 = Inl DivisionByZero) = ((0 :: cint) = 0)"
proof -
  obtain s where s: "steps 5 (init_state sample_junk) = Continue s" "pc s = L24"
    by (simp add: prog_defs init_state_def)
  from s(1) have r: "reachable sample_junk s"
    by (rule reachable_steps [OF reachable.reach_init])
  have f: "step (sample_junk\<lparr>pc := L24\<rparr>) = Fault DivisionByZero"
    by (simp add: prog_defs sample_junk_def)
  from modulus_never_faults [of sample_junk s DivisionByZero "sample_junk\<lparr>pc := L24\<rparr>" 5 0]
    r s f show ?thesis
    by blast
qed

end
